theory Spec2Isabelle
  imports Main
begin

section \<open>Data model of \<^verbatim>\<open>Net/src/DNS.cpp\<close>\<close>

text \<open>
  The exceptions thrown in \<^verbatim>\<open>DNS.cpp\<close>, with the constructor arguments of each
  \<^verbatim>\<open>throw\<close>. \<^verbatim>\<open>NetException()\<close> without an argument has the empty message.
\<close>

datatype exn =
    NetException string
  | HostNotFoundException string
  | DNSException string string
  | NoAddressFoundException string
  | IOException string

text \<open>
  The platform error codes named in the \<^verbatim>\<open>switch\<close> of \<^verbatim>\<open>DNS::error\<close>. The macros are
  defined in a header that is not part of this file, so their values are a parameter.
\<close>

record codes =
  POCO_ESYSNOTREADY :: int
  POCO_ENOTINIT :: int
  POCO_HOST_NOT_FOUND :: int
  POCO_TRY_AGAIN :: int
  POCO_NO_RECOVERY :: int
  POCO_NO_DATA :: int

text \<open>The case labels of a \<^verbatim>\<open>switch\<close> are pairwise different.\<close>

definition case_labels :: "codes \<Rightarrow> int list" where
  "case_labels cs =
     [POCO_ESYSNOTREADY cs, POCO_ENOTINIT cs, POCO_HOST_NOT_FOUND cs,
      POCO_TRY_AGAIN cs, POCO_NO_RECOVERY cs, POCO_NO_DATA cs]"

text \<open>
  Modelled from the spec: \<^verbatim>\<open>NumberFormatter::format(int)\<close> (Foundation, not in this file)
  gives the raw code as diagnostic text: the decimal digits, with a minus sign for a
  negative value.
\<close>

fun digits :: "nat \<Rightarrow> string" where
  "digits n =
     (if n < 10 then [char_of (48 + n)]
      else digits (n div 10) @ [char_of (48 + n mod 10)])"

declare digits.simps [simp del]

definition NumberFormatter_format :: "int \<Rightarrow> string" where
  "NumberFormatter_format i =
     (if i < 0 then CHR ''-'' # digits (nat (- i)) else digits (nat i))"

text \<open>
  \<^verbatim>\<open>void DNS::error(int code, const std::string& arg)\<close>. A normal return would be
  \<open>Inr ()\<close>; every branch of the source throws.
\<close>

definition error :: "codes \<Rightarrow> int \<Rightarrow> string \<Rightarrow> exn + unit" where
  "error cs code arg =
     (if code = POCO_ESYSNOTREADY cs then Inl (NetException ''Net subsystem not ready'')
      else if code = POCO_ENOTINIT cs then Inl (NetException ''Net subsystem not initialized'')
      else if code = POCO_HOST_NOT_FOUND cs then Inl (HostNotFoundException arg)
      else if code = POCO_TRY_AGAIN cs then
        Inl (DNSException ''Temporary DNS error while resolving'' arg)
      else if code = POCO_NO_RECOVERY cs then
        Inl (DNSException ''Non recoverable DNS error while resolving'' arg)
      else if code = POCO_NO_DATA cs then Inl (NoAddressFoundException arg)
      else Inl (IOException (NumberFormatter_format code)))"

text \<open>
  \<^verbatim>\<open>HostEntry\<close>: name, aliases and addresses. The address type \<open>'ip\<close> stands for
  \<^verbatim>\<open>IPAddress\<close>, whose class is not part of this file.
\<close>

record 'ip HostEntry =
  name :: string
  aliases :: "string list"
  addresses :: "'ip list"

text \<open>\<^verbatim>\<open>struct hostent\<close>, as \<^verbatim>\<open>gethostbyname\<close> and \<^verbatim>\<open>gethostbyaddr\<close> return it.\<close>

record 'ip hostent =
  h_name :: string
  h_aliases :: "string list"
  h_addr_list :: "'ip list"

text \<open>
  What happens during a call, in order: the scoped lock on \<^verbatim>\<open>_mutex\<close> is taken and
  released, and the resolver of the operating system is called.
\<close>

datatype 'ip event =
    Lock
  | Unlock
  | Gethostbyname string
  | Gethostbyaddr 'ip
  | Getnameinfo 'ip
  | Getaddrinfo string

fun is_os_call :: "'ip event \<Rightarrow> bool" where
  "is_os_call Lock = False"
| "is_os_call Unlock = False"
| "is_os_call _ = True"

fun is_forward_call :: "'ip event \<Rightarrow> bool" where
  "is_forward_call (Gethostbyname _) = True"
| "is_forward_call (Getaddrinfo _) = True"
| "is_forward_call _ = False"

definition os_calls :: "'ip event list \<Rightarrow> 'ip event list" where
  "os_calls tr = filter is_os_call tr"

text \<open>
  The static members \<^verbatim>\<open>_cache\<close> (a \<^verbatim>\<open>std::map\<close> from the key to the entry) and
  \<^verbatim>\<open>_mutex\<close> (seen through the events), and the error code that \<^verbatim>\<open>lastError()\<close> reads
  (\<^verbatim>\<open>h_errno\<close>, or \<^verbatim>\<open>GetLastError()\<close> on Windows).
\<close>

record 'ip dns =
  cache :: "string \<rightharpoonup> 'ip HostEntry"
  h_errno :: int
  trace :: "'ip event list"

text \<open>
  Everything \<^verbatim>\<open>DNS.cpp\<close> takes from outside. \<open>win32_ipv6\<close> is the condition
  \<^verbatim>\<open>defined(_WIN32) && defined(POCO_HAVE_IPv6)\<close> that selects the variant compiled.
  A resolver function gets the number of resolver calls made before (its answers may
  change from one call to the next) and answers \<open>Inr\<close> a result, or \<open>Inl\<close> the error
  code that it leaves for \<^verbatim>\<open>lastError()\<close>. \<^verbatim>\<open>getaddrinfo\<close> also gets whether the hint
  \<^verbatim>\<open>AI_CANONNAME\<close> is set. \<open>'ai\<close> stands for the \<^verbatim>\<open>addrinfo\<close> list. The two constructors
  of \<^verbatim>\<open>HostEntry\<close>, \<^verbatim>\<open>IPAddress::tryParse\<close> and \<^verbatim>\<open>IPAddress::toString\<close> are members of
  classes outside this file.
\<close>

record ('ip, 'ai) env =
  win32_ipv6 :: bool
  error_codes :: codes
  gethostbyname :: "nat \<Rightarrow> string \<Rightarrow> int + 'ip hostent"
  gethostbyaddr :: "nat \<Rightarrow> 'ip \<Rightarrow> int + 'ip hostent"
  getnameinfo :: "nat \<Rightarrow> 'ip \<Rightarrow> int + string"
  getaddrinfo :: "nat \<Rightarrow> string \<Rightarrow> bool \<Rightarrow> int + 'ai"
  gethostname :: "string option"
  HostEntry_he :: "'ip hostent \<Rightarrow> 'ip HostEntry"
  HostEntry_ai :: "'ai \<Rightarrow> 'ip HostEntry"
  tryParse :: "string \<Rightarrow> 'ip option"
  toString :: "'ip \<Rightarrow> string"

section \<open>The operations\<close>

definition log :: "'ip event \<Rightarrow> 'ip dns \<Rightarrow> 'ip dns" where
  "log ev s = s\<lparr>trace := trace s @ [ev]\<rparr>"

text \<open>The number of resolver calls made so far.\<close>

definition now :: "'ip dns \<Rightarrow> nat" where
  "now s = length (os_calls (trace s))"

text \<open>
  \<^verbatim>\<open>FastMutex::ScopedLock lock(_mutex)\<close> as the first statement of a function: the mutex
  is locked there and unlocked when the function is left, by \<^verbatim>\<open>return\<close> or by an
  exception.
\<close>

definition ScopedLock :: "('ip dns \<Rightarrow> 'r \<times> 'ip dns) \<Rightarrow> 'ip dns \<Rightarrow> 'r \<times> 'ip dns" where
  "ScopedLock body s = (case body (log Lock s) of (r, s') \<Rightarrow> (r, log Unlock s'))"

text \<open>
  \<^verbatim>\<open>_cache.insert(std::pair<std::string, HostEntry>(key, entry))\<close> followed by
  \<^verbatim>\<open>return res.first->second\<close>: \<^verbatim>\<open>std::map::insert\<close> leaves an existing element as it
  is, and \<^verbatim>\<open>res.first\<close> points to the element now stored under the key.
\<close>

definition cache_insert ::
  "string \<Rightarrow> 'ip HostEntry \<Rightarrow> 'ip dns \<Rightarrow> (exn + 'ip HostEntry) \<times> 'ip dns" where
  "cache_insert key entry s =
     (case cache s key of
        Some old \<Rightarrow> (Inr old, s)
      | None \<Rightarrow> (Inr entry, s\<lparr>cache := (cache s)(key \<mapsto> entry)\<rparr>))"

text \<open>\<^verbatim>\<open>int DNS::lastError()\<close>.\<close>

definition lastError :: "'ip dns \<Rightarrow> int" where
  "lastError s = h_errno s"

text \<open>
  The last two statements of \<^verbatim>\<open>hostByName\<close> and \<^verbatim>\<open>hostByAddress\<close>:
  \<^verbatim>\<open>error(lastError(), arg); throw NetException();\<close>
\<close>

definition error_or_throw ::
  "('ip, 'ai) env \<Rightarrow> string \<Rightarrow> 'ip dns \<Rightarrow> (exn + 'ip HostEntry) \<times> 'ip dns" where
  "error_or_throw e arg s =
     (case error (error_codes e) (lastError s) arg of
        Inl ex \<Rightarrow> (Inl ex, s)
      | Inr _ \<Rightarrow> (Inl (NetException ''''), s))"

text \<open>\<^verbatim>\<open>const HostEntry& DNS::hostByName(const std::string& hostname)\<close>.\<close>

definition hostByName ::
  "('ip, 'ai) env \<Rightarrow> string \<Rightarrow> 'ip dns \<Rightarrow> (exn + 'ip HostEntry) \<times> 'ip dns" where
  "hostByName e hostname =
     ScopedLock (\<lambda>s.
       case cache s hostname of
         Some entry \<Rightarrow> (Inr entry, s)
       | None \<Rightarrow>
           if win32_ipv6 e then
             (case getaddrinfo e (now s) hostname True of
                Inr pAI \<Rightarrow>
                  cache_insert hostname (HostEntry_ai e pAI) (log (Getaddrinfo hostname) s)
              | Inl code \<Rightarrow>
                  error_or_throw e hostname
                    (log (Getaddrinfo hostname) (s\<lparr>h_errno := code\<rparr>)))
           else
             (case gethostbyname e (now s) hostname of
                Inr he \<Rightarrow>
                  cache_insert hostname (HostEntry_he e he) (log (Gethostbyname hostname) s)
              | Inl code \<Rightarrow>
                  error_or_throw e hostname
                    (log (Gethostbyname hostname) (s\<lparr>h_errno := code\<rparr>))))"

text \<open>\<^verbatim>\<open>const HostEntry& DNS::hostByAddress(const IPAddress& address)\<close>.\<close>

definition hostByAddress ::
  "('ip, 'ai) env \<Rightarrow> 'ip \<Rightarrow> 'ip dns \<Rightarrow> (exn + 'ip HostEntry) \<times> 'ip dns" where
  "hostByAddress e address =
     ScopedLock (\<lambda>s.
       if win32_ipv6 e then
         (case getnameinfo e (now s) address of
            Inr fqname \<Rightarrow>
              (let s1 = log (Getnameinfo address) s in
               case cache s1 fqname of
                 Some entry \<Rightarrow> (Inr entry, s1)
               | None \<Rightarrow>
                   (case getaddrinfo e (now s1) fqname False of
                      Inr pAI \<Rightarrow>
                        cache_insert fqname (HostEntry_ai e pAI) (log (Getaddrinfo fqname) s1)
                    | Inl code \<Rightarrow>
                        error_or_throw e (toString e address)
                          (log (Getaddrinfo fqname) (s1\<lparr>h_errno := code\<rparr>))))
          | Inl code \<Rightarrow>
              error_or_throw e (toString e address)
                (log (Getnameinfo address) (s\<lparr>h_errno := code\<rparr>)))
       else
         (case gethostbyaddr e (now s) address of
            Inr he \<Rightarrow>
              cache_insert (h_name he) (HostEntry_he e he) (log (Gethostbyaddr address) s)
          | Inl code \<Rightarrow>
              error_or_throw e (toString e address)
                (log (Gethostbyaddr address) (s\<lparr>h_errno := code\<rparr>))))"

text \<open>\<^verbatim>\<open>const HostEntry& DNS::resolve(const std::string& address)\<close>.\<close>

definition resolve ::
  "('ip, 'ai) env \<Rightarrow> string \<Rightarrow> 'ip dns \<Rightarrow> (exn + 'ip HostEntry) \<times> 'ip dns" where
  "resolve e address s =
     (case tryParse e address of
        Some ip \<Rightarrow> hostByAddress e ip s
      | None \<Rightarrow> hostByName e address s)"

text \<open>\<^verbatim>\<open>IPAddress DNS::resolveOne(const std::string& address)\<close>.\<close>

definition resolveOne ::
  "('ip, 'ai) env \<Rightarrow> string \<Rightarrow> 'ip dns \<Rightarrow> (exn + 'ip) \<times> 'ip dns" where
  "resolveOne e address s =
     (case resolve e address s of
        (Inl ex, s') \<Rightarrow> (Inl ex, s')
      | (Inr entry, s') \<Rightarrow>
          (case addresses entry of
             a # _ \<Rightarrow> (Inr a, s')
           | [] \<Rightarrow> (Inl (NoAddressFoundException address), s')))"

text \<open>\<^verbatim>\<open>std::string DNS::hostName()\<close>.\<close>

definition hostName :: "('ip, 'ai) env \<Rightarrow> exn + string" where
  "hostName e =
     (case gethostname e of
        Some buffer \<Rightarrow> Inr buffer
      | None \<Rightarrow> Inl (NetException ''Cannot get host name''))"

text \<open>\<^verbatim>\<open>const HostEntry& DNS::thisHost()\<close>.\<close>

definition thisHost ::
  "('ip, 'ai) env \<Rightarrow> 'ip dns \<Rightarrow> (exn + 'ip HostEntry) \<times> 'ip dns" where
  "thisHost e s =
     (case hostName e of
        Inl ex \<Rightarrow> (Inl ex, s)
      | Inr n \<Rightarrow> hostByName e n s)"

text \<open>\<^verbatim>\<open>void DNS::flushCache()\<close>.\<close>

definition flushCache :: "'ip dns \<Rightarrow> unit \<times> 'ip dns" where
  "flushCache = ScopedLock (\<lambda>s. ((), s\<lparr>cache := Map.empty\<rparr>))"

section \<open>Observations on the sequence of events\<close>

text \<open>
  The resolver calls made while \<^verbatim>\<open>_mutex\<close> is locked, and those made while it is not;
  the first argument says whether the mutex is locked at the start.
\<close>

fun locked_os_calls :: "bool \<Rightarrow> 'ip event list \<Rightarrow> 'ip event list" where
  "locked_os_calls held [] = []"
| "locked_os_calls held (Lock # tr) = locked_os_calls True tr"
| "locked_os_calls held (Unlock # tr) = locked_os_calls False tr"
| "locked_os_calls held (ev # tr) = (if held then [ev] else []) @ locked_os_calls held tr"

fun unlocked_os_calls :: "bool \<Rightarrow> 'ip event list \<Rightarrow> 'ip event list" where
  "unlocked_os_calls held [] = []"
| "unlocked_os_calls held (Lock # tr) = unlocked_os_calls True tr"
| "unlocked_os_calls held (Unlock # tr) = unlocked_os_calls False tr"
| "unlocked_os_calls held (ev # tr) = (if held then [] else [ev]) @ unlocked_os_calls held tr"

text \<open>The events that a call adds to the trace of the state \<open>s\<close> it starts in.\<close>

definition added :: "'ip dns \<Rightarrow> 'ip dns \<Rightarrow> 'ip event list" where
  "added s s' = drop (length (trace s)) (trace s')"

section \<open>A resolver to run the operations on\<close>

text \<open>
  The cache is empty at process start. In the runs below an address is the list of its
  bytes.
\<close>

definition DNS_init :: "nat list dns" where
  "DNS_init = \<lparr>cache = Map.empty, h_errno = 0, trace = []\<rparr>"

text \<open>The values of the error codes on a POSIX system and on Windows.\<close>

definition posix_codes :: codes where
  "posix_codes =
     \<lparr>POCO_ESYSNOTREADY = - 4, POCO_ENOTINIT = - 5, POCO_HOST_NOT_FOUND = 1,
      POCO_TRY_AGAIN = 2, POCO_NO_RECOVERY = 3, POCO_NO_DATA = 4\<rparr>"

definition windows_codes :: codes where
  "windows_codes =
     \<lparr>POCO_ESYSNOTREADY = 10091, POCO_ENOTINIT = 10093, POCO_HOST_NOT_FOUND = 11001,
      POCO_TRY_AGAIN = 11002, POCO_NO_RECOVERY = 11003, POCO_NO_DATA = 11004\<rparr>"

text \<open>
  Modelled from the spec: the constructors of \<^verbatim>\<open>HostEntry\<close> (\<^verbatim>\<open>HostEntry.cpp\<close> is not part
  of this file) build the entry from the raw result of the resolver: its canonical
  name, its aliases and its addresses.
\<close>

definition HostEntry_of_hostent :: "'ip hostent \<Rightarrow> 'ip HostEntry" where
  "HostEntry_of_hostent he =
     \<lparr>name = h_name he, aliases = h_aliases he, addresses = h_addr_list he\<rparr>"

text \<open>
  A resolver with a fixed table of hosts. The forward lookup of \<open>example.test\<close> gives
  two addresses and the reverse lookup of the first of them gives that one alone; every
  other lookup fails with the code given.
\<close>

definition fake_forward :: "int \<Rightarrow> string \<Rightarrow> int + nat list hostent" where
  "fake_forward code n =
     (if n = ''example.test'' then
        Inr \<lparr>h_name = ''example.test'', h_aliases = [''www.example.test''],
             h_addr_list = [[192, 0, 2, 1], [192, 0, 2, 2]]\<rparr>
      else Inl code)"

definition fake_reverse :: "int \<Rightarrow> nat list \<Rightarrow> int + nat list hostent" where
  "fake_reverse code a =
     (if a = [192, 0, 2, 1] then
        Inr \<lparr>h_name = ''example.test'', h_aliases = [], h_addr_list = [[192, 0, 2, 1]]\<rparr>
      else Inl code)"

fun dotted :: "nat list \<Rightarrow> string" where
  "dotted [] = []"
| "dotted [b] = digits b"
| "dotted (b # bs) = digits b @ CHR ''.'' # dotted bs"

definition fake_env :: "bool \<Rightarrow> int \<Rightarrow> (nat list, nat list hostent) env" where
  "fake_env w code =
     \<lparr>win32_ipv6 = w,
      error_codes = (if w then windows_codes else posix_codes),
      gethostbyname = (\<lambda>t n. fake_forward code n),
      gethostbyaddr = (\<lambda>t a. fake_reverse code a),
      getnameinfo = (\<lambda>t a. map_sum id h_name (fake_reverse code a)),
      getaddrinfo = (\<lambda>t n canon. fake_forward code n),
      gethostname = Some ''localhost'',
      HostEntry_he = HostEntry_of_hostent,
      HostEntry_ai = HostEntry_of_hostent,
      tryParse = map_of [(''192.0.2.1'', [192, 0, 2, 1]), (''192.0.2.9'', [192, 0, 2, 9])],
      toString = dotted\<rparr>"

text \<open>
  The same resolver, except that every forward lookup succeeds with a result that has
  no address.
\<close>

definition empty_forward :: "string \<Rightarrow> int + nat list hostent" where
  "empty_forward n = Inr \<lparr>h_name = n, h_aliases = [], h_addr_list = []\<rparr>"

definition empty_env :: "bool \<Rightarrow> int \<Rightarrow> (nat list, nat list hostent) env" where
  "empty_env w code =
     (fake_env w code)
       \<lparr>gethostbyname := (\<lambda>t n. empty_forward n),
        getaddrinfo := (\<lambda>t n canon. empty_forward n)\<rparr>"

section \<open>The resolver calls of the two variants\<close>

text \<open>
  The forward lookup that the compiled variant of \<^verbatim>\<open>hostByName\<close> makes, with the entry
  built from its result, and the event it leaves.
\<close>

definition forward_lookup :: "('ip, 'ai) env \<Rightarrow> nat \<Rightarrow> string \<Rightarrow> int + 'ip HostEntry" where
  "forward_lookup e t n =
     (if win32_ipv6 e then map_sum id (HostEntry_ai e) (getaddrinfo e t n True)
      else map_sum id (HostEntry_he e) (gethostbyname e t n))"

definition forward_event :: "('ip, 'ai) env \<Rightarrow> string \<Rightarrow> 'ip event" where
  "forward_event e n = (if win32_ipv6 e then Getaddrinfo n else Gethostbyname n)"

text \<open>
  The reverse lookup that the compiled variant of \<^verbatim>\<open>hostByAddress\<close> makes, with the
  canonical name it gives (\<^verbatim>\<open>fqname\<close>, or \<^verbatim>\<open>he->h_name\<close>), and the event it leaves.
\<close>

definition reverse_lookup :: "('ip, 'ai) env \<Rightarrow> nat \<Rightarrow> 'ip \<Rightarrow> int + string" where
  "reverse_lookup e t a =
     (if win32_ipv6 e then getnameinfo e t a else map_sum id h_name (gethostbyaddr e t a))"

definition reverse_event :: "('ip, 'ai) env \<Rightarrow> 'ip \<Rightarrow> 'ip event" where
  "reverse_event e a = (if win32_ipv6 e then Getnameinfo a else Gethostbyaddr a)"

section \<open>Lemmas on the operations\<close>

lemmas fake_defs =
  fake_env_def fake_forward_def fake_reverse_def DNS_init_def now_def os_calls_def
  HostEntry_of_hostent_def posix_codes_def windows_codes_def

lemmas run_defs =
  hostByName_def hostByAddress_def ScopedLock_def cache_insert_def error_or_throw_def
  lastError_def log_def

text \<open>
  \<^verbatim>\<open>DNS::error\<close> throws, and never the exception of the statement after its call.
\<close>

lemma error_throws: "\<exists>ex. error cs code arg = Inl ex"
  by (simp add: error_def)

lemma error_not_default: "error cs code arg \<noteq> Inl (NetException [])"
  by (simp add: error_def)

lemma error_or_throw_eq:
  "error_or_throw e arg s = (Inl (projl (error (error_codes e) (lastError s) arg)), s)"
proof -
  obtain ex where "error (error_codes e) (lastError s) arg = Inl ex"
    using error_throws by blast
  then show ?thesis by (simp add: error_or_throw_def)
qed

lemma error_or_throw_not_default: "fst (error_or_throw e arg s) \<noteq> Inl (NetException [])"
  using error_not_default [of "error_codes e" "lastError s" arg] error_throws [of "error_codes e" "lastError s" arg]
  by (auto simp: error_or_throw_eq)

lemma cache_insert_fst: "fst (cache_insert k v s) \<noteq> Inl ex"
  by (simp add: cache_insert_def split: option.split)

text \<open>
  The scoped lock, the log and the count of resolver calls.
\<close>

lemma fst_ScopedLock: "fst (ScopedLock body s) = fst (body (log Lock s))"
  by (simp add: ScopedLock_def split: prod.split)

lemma snd_ScopedLock: "snd (ScopedLock body s) = log Unlock (snd (body (log Lock s)))"
  by (simp add: ScopedLock_def split: prod.split)

lemma log_simps [simp]:
  "cache (log ev s) = cache s" "h_errno (log ev s) = h_errno s"
  "trace (log ev s) = trace s @ [ev]"
  by (simp_all add: log_def)

lemma now_log [simp]:
  "now (log ev s) = (if is_os_call ev then Suc (now s) else now s)"
  by (simp add: now_def os_calls_def)

lemma now_h_errno [simp]: "now (s\<lparr>h_errno := c\<rparr>) = now s"
  by (simp add: now_def)

lemma added_append: "trace s' = trace s @ evs \<Longrightarrow> added s s' = evs"
  by (simp add: added_def)

text \<open>
  \<^verbatim>\<open>hostByName\<close> case by case: the name is cached; it is not and the lookup succeeds;
  it is not and the lookup fails.
\<close>

lemma hostByName_hit:
  "cache s n = Some entry \<Longrightarrow>
   hostByName e n s = (Inr entry, s\<lparr>trace := trace s @ [Lock, Unlock]\<rparr>)"
  by (simp add: hostByName_def ScopedLock_def log_def)

lemma hostByName_miss_ok:
  "cache s n = None \<Longrightarrow> forward_lookup e (now s) n = Inr entry \<Longrightarrow>
   hostByName e n s =
     (Inr entry, s\<lparr>cache := (cache s)(n \<mapsto> entry),
                    trace := trace s @ [Lock, forward_event e n, Unlock]\<rparr>)"
  by (auto simp: hostByName_def ScopedLock_def forward_lookup_def forward_event_def
      cache_insert_def log_def now_def os_calls_def split: sum.splits if_splits)

lemma hostByName_miss_fail:
  "cache s n = None \<Longrightarrow> forward_lookup e (now s) n = Inl code \<Longrightarrow>
   hostByName e n s =
     (Inl (projl (error (error_codes e) code n)),
      s\<lparr>h_errno := code, trace := trace s @ [Lock, forward_event e n, Unlock]\<rparr>)"
  by (auto simp: hostByName_def ScopedLock_def forward_lookup_def forward_event_def
      error_or_throw_eq lastError_def log_def now_def os_calls_def split: sum.splits if_splits)

text \<open>
  \<^verbatim>\<open>hostByAddress\<close> case by case, in the variant for Windows with IPv6 and in the
  other one.
\<close>

lemma hostByAddress_win_hit:
  "win32_ipv6 e \<Longrightarrow> getnameinfo e (now s) a = Inr fq \<Longrightarrow> cache s fq = Some entry \<Longrightarrow>
   hostByAddress e a s = (Inr entry, s\<lparr>trace := trace s @ [Lock, Getnameinfo a, Unlock]\<rparr>)"
  by (simp add: hostByAddress_def ScopedLock_def log_def now_def os_calls_def)

lemma hostByAddress_win_miss_ok:
  "win32_ipv6 e \<Longrightarrow> getnameinfo e (now s) a = Inr fq \<Longrightarrow> cache s fq = None \<Longrightarrow>
   getaddrinfo e (Suc (now s)) fq False = Inr pAI \<Longrightarrow>
   hostByAddress e a s =
     (Inr (HostEntry_ai e pAI),
      s\<lparr>cache := (cache s)(fq \<mapsto> HostEntry_ai e pAI),
        trace := trace s @ [Lock, Getnameinfo a, Getaddrinfo fq, Unlock]\<rparr>)"
  by (simp add: hostByAddress_def ScopedLock_def cache_insert_def log_def now_def os_calls_def)

lemma hostByAddress_win_miss_fail:
  "win32_ipv6 e \<Longrightarrow> getnameinfo e (now s) a = Inr fq \<Longrightarrow> cache s fq = None \<Longrightarrow>
   getaddrinfo e (Suc (now s)) fq False = Inl code \<Longrightarrow>
   hostByAddress e a s =
     (Inl (projl (error (error_codes e) code (toString e a))),
      s\<lparr>h_errno := code, trace := trace s @ [Lock, Getnameinfo a, Getaddrinfo fq, Unlock]\<rparr>)"
  by (simp add: hostByAddress_def ScopedLock_def error_or_throw_eq lastError_def log_def now_def os_calls_def)

lemma hostByAddress_win_fail:
  "win32_ipv6 e \<Longrightarrow> getnameinfo e (now s) a = Inl code \<Longrightarrow>
   hostByAddress e a s =
     (Inl (projl (error (error_codes e) code (toString e a))),
      s\<lparr>h_errno := code, trace := trace s @ [Lock, Getnameinfo a, Unlock]\<rparr>)"
  by (simp add: hostByAddress_def ScopedLock_def error_or_throw_eq lastError_def log_def now_def os_calls_def)

lemma hostByAddress_posix_hit:
  "\<not> win32_ipv6 e \<Longrightarrow> gethostbyaddr e (now s) a = Inr he \<Longrightarrow> cache s (h_name he) = Some entry \<Longrightarrow>
   hostByAddress e a s = (Inr entry, s\<lparr>trace := trace s @ [Lock, Gethostbyaddr a, Unlock]\<rparr>)"
  by (simp add: hostByAddress_def ScopedLock_def cache_insert_def log_def now_def os_calls_def)

lemma hostByAddress_posix_miss:
  "\<not> win32_ipv6 e \<Longrightarrow> gethostbyaddr e (now s) a = Inr he \<Longrightarrow> cache s (h_name he) = None \<Longrightarrow>
   hostByAddress e a s =
     (Inr (HostEntry_he e he),
      s\<lparr>cache := (cache s)(h_name he \<mapsto> HostEntry_he e he),
        trace := trace s @ [Lock, Gethostbyaddr a, Unlock]\<rparr>)"
  by (simp add: hostByAddress_def ScopedLock_def cache_insert_def log_def now_def os_calls_def)

lemma hostByAddress_posix_fail:
  "\<not> win32_ipv6 e \<Longrightarrow> gethostbyaddr e (now s) a = Inl code \<Longrightarrow>
   hostByAddress e a s =
     (Inl (projl (error (error_codes e) code (toString e a))),
      s\<lparr>h_errno := code, trace := trace s @ [Lock, Gethostbyaddr a, Unlock]\<rparr>)"
  by (simp add: hostByAddress_def ScopedLock_def error_or_throw_eq lastError_def log_def now_def os_calls_def)

text \<open>
  The events that one call adds.
\<close>

lemma hostByName_added:
  "added s (snd (hostByName e n s)) = [Lock, Unlock]
   \<or> added s (snd (hostByName e n s)) = [Lock, forward_event e n, Unlock]"
proof (cases "cache s n")
  case (Some entry)
  then show ?thesis by (simp add: hostByName_hit added_append)
next
  case None
  then show ?thesis
    by (cases "forward_lookup e (now s) n")
       (simp_all add: hostByName_miss_fail hostByName_miss_ok added_append)
qed

lemma hostByAddress_added:
  "added s (snd (hostByAddress e a s)) = [Lock, reverse_event e a, Unlock]
   \<or> (\<exists>fq. added s (snd (hostByAddress e a s)) = [Lock, reverse_event e a, Getaddrinfo fq, Unlock])"
proof (cases "win32_ipv6 e")
  case True
  show ?thesis
  proof (cases "getnameinfo e (now s) a")
    case (Inl code)
    with True show ?thesis
      by (simp add: hostByAddress_win_fail added_append reverse_event_def)
  next
    case (Inr fq)
    show ?thesis
    proof (cases "cache s fq")
      case (Some entry)
      with True Inr show ?thesis
        by (simp add: hostByAddress_win_hit added_append reverse_event_def)
    next
      case None
      with True Inr show ?thesis
        by (cases "getaddrinfo e (Suc (now s)) fq False")
           (simp_all add: hostByAddress_win_miss_fail hostByAddress_win_miss_ok added_append
              reverse_event_def)
    qed
  qed
next
  case False
  show ?thesis
  proof (cases "gethostbyaddr e (now s) a")
    case (Inl code)
    with False show ?thesis
      by (simp add: hostByAddress_posix_fail added_append reverse_event_def)
  next
    case (Inr he)
    with False show ?thesis
      by (cases "cache s (h_name he)")
         (simp_all add: hostByAddress_posix_miss hostByAddress_posix_hit added_append
            reverse_event_def)
  qed
qed

text \<open>
  Entries with addresses stay entries with addresses.
\<close>

lemma hostByName_nonempty:
  assumes cached: "\<forall>k entry. cache s k = Some entry \<longrightarrow> addresses entry \<noteq> []"
    and fwd: "\<forall>t entry. forward_lookup e t n = Inr entry \<longrightarrow> addresses entry \<noteq> []"
    and ok: "hostByName e n s = (Inr entry, s')"
  shows "addresses entry \<noteq> [] \<and> (\<forall>k entry'. cache s' k = Some entry' \<longrightarrow> addresses entry' \<noteq> [])"
proof (cases "cache s n")
  case (Some old)
  from hostByName_hit [OF Some, of e] ok cached Some show ?thesis by auto
next
  case None
  show ?thesis
  proof (cases "forward_lookup e (now s) n")
    case (Inl code)
    from hostByName_miss_fail [OF None Inl] ok show ?thesis by simp
  next
    case (Inr new)
    from fwd Inr have "addresses new \<noteq> []" by blast
    with hostByName_miss_ok [OF None Inr] ok cached show ?thesis by auto
  qed
qed

lemma hostByAddress_nonempty:
  assumes cached: "\<forall>k entry. cache s k = Some entry \<longrightarrow> addresses entry \<noteq> []"
    and byaddr: "\<forall>t he. gethostbyaddr e t a = Inr he \<longrightarrow> addresses (HostEntry_he e he) \<noteq> []"
    and addrinfo: "\<forall>t n c pAI. getaddrinfo e t n c = Inr pAI \<longrightarrow> addresses (HostEntry_ai e pAI) \<noteq> []"
    and ok: "hostByAddress e a s = (Inr entry, s')"
  shows "addresses entry \<noteq> [] \<and> (\<forall>k entry'. cache s' k = Some entry' \<longrightarrow> addresses entry' \<noteq> [])"
proof (cases "win32_ipv6 e")
  case True
  show ?thesis
  proof (cases "getnameinfo e (now s) a")
    case (Inl code)
    from hostByAddress_win_fail [OF True Inl] ok show ?thesis by simp
  next
    case (Inr fq)
    show ?thesis
    proof (cases "cache s fq")
      case (Some old)
      from hostByAddress_win_hit [OF True Inr Some] ok cached Some show ?thesis by auto
    next
      case None
      show ?thesis
      proof (cases "getaddrinfo e (Suc (now s)) fq False")
        case (Inl code)
        from hostByAddress_win_miss_fail [OF True Inr None Inl] ok show ?thesis by simp
      next
        case (Inr pAI)
        from addrinfo Inr have "addresses (HostEntry_ai e pAI) \<noteq> []" by blast
        with hostByAddress_win_miss_ok [OF True \<open>getnameinfo e (now s) a = Inr fq\<close> None Inr] ok cached
        show ?thesis by auto
      qed
    qed
  qed
next
  case False
  show ?thesis
  proof (cases "gethostbyaddr e (now s) a")
    case (Inl code)
    from hostByAddress_posix_fail [OF False Inl] ok show ?thesis by simp
  next
    case (Inr he)
    from byaddr Inr have ne: "addresses (HostEntry_he e he) \<noteq> []" by blast
    show ?thesis
    proof (cases "cache s (h_name he)")
      case (Some old)
      from hostByAddress_posix_hit [OF False Inr Some] ok cached Some show ?thesis by auto
    next
      case None
      from hostByAddress_posix_miss [OF False Inr None] ok cached ne show ?thesis by auto
    qed
  qed
qed

text \<open>
  The decimal text of a code determines the code.
\<close>

lemma digit_char_inj: "a < 10 \<Longrightarrow> b < 10 \<Longrightarrow> char_of (48 + a :: nat) = char_of (48 + b) \<Longrightarrow> a = b"
  by (simp add: char_of_eq_iff take_bit_eq_mod)

lemma digit_char_not_minus: "a < 10 \<Longrightarrow> char_of (48 + a :: nat) \<noteq> CHR ''-''"
proof
  assume a: "a < 10" and "char_of (48 + a) = CHR ''-''"
  then have "of_char (char_of (48 + a) :: char) = (of_char CHR ''-'' :: nat)" by simp
  with a show False by (simp add: take_bit_eq_mod)
qed

lemma digits_nonempty: "digits n \<noteq> []"
  by (subst digits.simps) simp

lemma digits_length_one: "length (digits n) = Suc 0 \<longleftrightarrow> n < 10"
proof (cases "n < 10")
  case True
  then show ?thesis by (subst digits.simps) simp
next
  case False
  have "length (digits (n div 10)) > 0" using digits_nonempty by blast
  with False show ?thesis by (subst digits.simps) simp
qed

lemma digits_inj: "digits n = digits m \<Longrightarrow> n = m"
proof (induction n arbitrary: m rule: digits.induct)
  case (1 n)
  show ?case
  proof (cases "n < 10")
    case True
    with "1.prems" have "length (digits m) = Suc 0"
      by (metis digits_length_one)
    then have m: "m < 10" by (simp add: digits_length_one)
    from True m "1.prems" have "char_of (48 + n) = (char_of (48 + m) :: char)"
      by (simp add: digits.simps [of n] digits.simps [of m])
    with True m show ?thesis by (rule digit_char_inj)
  next
    case False
    with "1.prems" have "length (digits m) \<noteq> Suc 0"
      by (metis digits_length_one)
    then have m: "\<not> m < 10" by (simp add: digits_length_one)
    from False m "1.prems" have eq: "digits (n div 10) @ [char_of (48 + n mod 10)] =
        digits (m div 10) @ [char_of (48 + m mod 10)]"
      by (simp add: digits.simps [of n] digits.simps [of m])
    then have "digits (n div 10) = digits (m div 10)"
      and c: "char_of (48 + n mod 10) = (char_of (48 + m mod 10) :: char)"
      by simp_all
    with False "1.IH" have d: "n div 10 = m div 10" by blast
    have "n mod 10 = m mod 10"
      using c by (intro digit_char_inj) simp_all
    with d show ?thesis by (metis div_mult_mod_eq)
  qed
qed

lemma digits_hd_not_minus: "hd (digits n) \<noteq> CHR ''-''"
proof (induction n rule: digits.induct)
  case (1 n)
  show ?case
  proof (cases "n < 10")
    case True
    then show ?thesis by (simp add: digits.simps [of n] digit_char_not_minus)
  next
    case False
    with 1 digits_nonempty [of "n div 10"] show ?thesis
      by (simp add: digits.simps [of n])
  qed
qed

lemma NumberFormatter_format_inj:
  "NumberFormatter_format i = NumberFormatter_format j \<Longrightarrow> i = j"
proof -
  assume eq: "NumberFormatter_format i = NumberFormatter_format j"
  have neg: False if "CHR ''-'' # digits a = digits b" for a b
    using digits_hd_not_minus [of b] that [symmetric] by simp
  show ?thesis
  proof (cases "i < 0"; cases "j < 0")
    assume "i < 0" "j < 0"
    with eq have "nat (- i) = nat (- j)"
      by (simp add: NumberFormatter_format_def digits_inj)
    with \<open>i < 0\<close> \<open>j < 0\<close> show ?thesis by simp
  next
    assume "i < 0" "\<not> j < 0"
    with eq neg show ?thesis by (simp add: NumberFormatter_format_def)
  next
    assume "\<not> i < 0" "j < 0"
    with eq neg [of "nat (- j)" "nat i"] show ?thesis by (simp add: NumberFormatter_format_def)
  next
    assume "\<not> i < 0" "\<not> j < 0"
    with eq have "nat i = nat j"
      by (simp add: NumberFormatter_format_def digits_inj)
    with \<open>\<not> i < 0\<close> \<open>\<not> j < 0\<close> show ?thesis by simp
  qed
qed

section \<open>The claims\<close>

text \<open>
  C1, as the code has it. When the reverse lookup of an address succeeds,
  \<^verbatim>\<open>hostByAddress\<close> uses the canonical name it gives as the cache key. If an entry is
  cached under that name, the entry is returned and the reverse lookup is the only
  resolver call. Otherwise the variant for Windows with IPv6 calls \<^verbatim>\<open>getaddrinfo\<close> on
  the canonical name and, when that succeeds, builds the entry from its result, inserts
  it under the canonical name and returns it; the other variant makes no forward
  lookup: it builds the entry from the result of \<^verbatim>\<open>gethostbyaddr\<close>, inserts it under the
  canonical name and returns it.
\<close>

theorem hostByAddress_canonical_key:
  assumes "reverse_lookup e (now s) a = Inr cname"
  shows "(cache s cname = Some entry \<longrightarrow>
            hostByAddress e a s =
              (Inr entry, s\<lparr>trace := trace s @ [Lock, reverse_event e a, Unlock]\<rparr>))
       \<and> (cache s cname = None \<and> win32_ipv6 e
            \<and> getaddrinfo e (Suc (now s)) cname False = Inr pAI \<longrightarrow>
            hostByAddress e a s =
              (Inr (HostEntry_ai e pAI),
               s\<lparr>cache := (cache s)(cname \<mapsto> HostEntry_ai e pAI),
                 trace := trace s @ [Lock, Getnameinfo a, Getaddrinfo cname, Unlock]\<rparr>))
       \<and> (cache s cname = None \<and> \<not> win32_ipv6 e
            \<and> gethostbyaddr e (now s) a = Inr he \<longrightarrow>
            hostByAddress e a s =
              (Inr (HostEntry_he e he),
               s\<lparr>cache := (cache s)(cname \<mapsto> HostEntry_he e he),
                 trace := trace s @ [Lock, Gethostbyaddr a, Unlock]\<rparr>))"
proof (cases "win32_ipv6 e")
  case True
  with assms have "getnameinfo e (now s) a = Inr cname"
    by (simp add: reverse_lookup_def)
  with True show ?thesis
    by (simp add: hostByAddress_win_hit hostByAddress_win_miss_ok reverse_event_def)
next
  case False
  with assms obtain he' where he': "gethostbyaddr e (now s) a = Inr he'" "h_name he' = cname"
    by (cases "gethostbyaddr e (now s) a") (auto simp: reverse_lookup_def)
  with False show ?thesis
    using hostByAddress_posix_hit [of e s a he' entry] hostByAddress_posix_miss [of e s a he']
    by (auto simp: reverse_event_def)
qed

text \<open>
  The three cases on the fixed table: a miss in the variant for Windows with IPv6, a
  miss in the other variant, and a hit.
\<close>

theorem hostByAddress_canonical_key_witness:
  "reverse_lookup (fake_env True 11001) (now DNS_init) [192, 0, 2, 1] = Inr ''example.test''
   \<and> fst (hostByAddress (fake_env True 11001) [192, 0, 2, 1] DNS_init) =
       Inr \<lparr>name = ''example.test'', aliases = [''www.example.test''],
            addresses = [[192, 0, 2, 1], [192, 0, 2, 2]]\<rparr>
   \<and> trace (snd (hostByAddress (fake_env True 11001) [192, 0, 2, 1] DNS_init)) =
       [Lock, Getnameinfo [192, 0, 2, 1], Getaddrinfo ''example.test'', Unlock]
   \<and> reverse_lookup (fake_env False 1) (now DNS_init) [192, 0, 2, 1] = Inr ''example.test''
   \<and> fst (hostByAddress (fake_env False 1) [192, 0, 2, 1] DNS_init) =
       Inr \<lparr>name = ''example.test'', aliases = [], addresses = [[192, 0, 2, 1]]\<rparr>
   \<and> trace (snd (hostByAddress (fake_env False 1) [192, 0, 2, 1] DNS_init)) =
       [Lock, Gethostbyaddr [192, 0, 2, 1], Unlock]
   \<and> hostByAddress (fake_env True 11001) [192, 0, 2, 1]
        (DNS_init\<lparr>cache := [''example.test'' \<mapsto> \<lparr>name = ''cached'', aliases = [], addresses = []\<rparr>]\<rparr>) =
       (Inr \<lparr>name = ''cached'', aliases = [], addresses = []\<rparr>,
        DNS_init\<lparr>cache := [''example.test'' \<mapsto> \<lparr>name = ''cached'', aliases = [], addresses = []\<rparr>],
                  trace := [Lock, Getnameinfo [192, 0, 2, 1], Unlock]\<rparr>)"
proof -
  let ?a = "[192, 0, 2, 1] :: nat list"
  let ?he = "\<lparr>h_name = ''example.test'', h_aliases = [''www.example.test''],
              h_addr_list = [[192, 0, 2, 1], [192, 0, 2, 2 :: nat]]\<rparr>"
  let ?rhe = "\<lparr>h_name = ''example.test'', h_aliases = [], h_addr_list = [?a]\<rparr>"
  let ?old = "\<lparr>name = ''cached'', aliases = [], addresses = [] :: nat list list\<rparr>"
  let ?s = "DNS_init\<lparr>cache := [''example.test'' \<mapsto> ?old]\<rparr>"
  have rw: "reverse_lookup (fake_env True 11001) (now DNS_init) ?a = Inr ''example.test''"
    by (simp add: fake_defs reverse_lookup_def reverse_event_def)
  have mw: "cache DNS_init ''example.test'' = None \<and> win32_ipv6 (fake_env True 11001)
      \<and> getaddrinfo (fake_env True 11001) (Suc (now DNS_init)) ''example.test'' False = Inr ?he"
    by (simp add: fake_defs reverse_lookup_def reverse_event_def)
  have rp: "reverse_lookup (fake_env False 1) (now DNS_init) ?a = Inr ''example.test''"
    by (simp add: fake_defs reverse_lookup_def reverse_event_def)
  have mp: "cache DNS_init ''example.test'' = None \<and> \<not> win32_ipv6 (fake_env False 1)
      \<and> gethostbyaddr (fake_env False 1) (now DNS_init) ?a = Inr ?rhe"
    by (simp add: fake_defs reverse_lookup_def reverse_event_def)
  have rh: "reverse_lookup (fake_env True 11001) (now ?s) ?a = Inr ''example.test''"
    by (simp add: fake_defs reverse_lookup_def reverse_event_def)
  have hh: "cache ?s ''example.test'' = Some ?old"
    by (simp add: fake_defs reverse_lookup_def reverse_event_def)
  note w = hostByAddress_canonical_key [OF rw, THEN conjunct2, THEN conjunct1, rule_format, OF mw]
  note p = hostByAddress_canonical_key [OF rp, THEN conjunct2, THEN conjunct2, rule_format, OF mp]
  note h = hostByAddress_canonical_key [OF rh, THEN conjunct1, rule_format, OF hh]
  from w p h rw rp show ?thesis
    by (simp add: fake_defs reverse_lookup_def reverse_event_def)
qed

text \<open>
  C1 as it is stated fails in the variant that is not for Windows with IPv6: the
  reverse lookup of 192.0.2.1 succeeds with a name that is not cached, no forward
  lookup is made, and the entry returned holds the one address of the reverse result,
  not the two that the forward lookup of the name gives.
\<close>

theorem hostByAddress_no_forward_lookup_counterexample:
  "reverse_lookup (fake_env False 1) (now DNS_init) [192, 0, 2, 1] = Inr ''example.test''
   \<and> cache DNS_init ''example.test'' = None
   \<and> fst (hostByAddress (fake_env False 1) [192, 0, 2, 1] DNS_init) =
       Inr \<lparr>name = ''example.test'', aliases = [], addresses = [[192, 0, 2, 1]]\<rparr>
   \<and> trace (snd (hostByAddress (fake_env False 1) [192, 0, 2, 1] DNS_init)) =
       [Lock, Gethostbyaddr [192, 0, 2, 1], Unlock]
   \<and> filter is_forward_call (trace (snd (hostByAddress (fake_env False 1) [192, 0, 2, 1] DNS_init))) = []
   \<and> forward_lookup (fake_env False 1) 1 ''example.test'' =
       Inr \<lparr>name = ''example.test'', aliases = [''www.example.test''],
            addresses = [[192, 0, 2, 1], [192, 0, 2, 2]]\<rparr>"
  by (simp add: hostByAddress_def ScopedLock_def cache_insert_def log_def fake_defs
      reverse_lookup_def forward_lookup_def)

text \<open>
  C2. \<^verbatim>\<open>resolve\<close> gives what \<^verbatim>\<open>hostByAddress\<close> gives on the parsed address when
  \<^verbatim>\<open>IPAddress::tryParse\<close> accepts the input, and what \<^verbatim>\<open>hostByName\<close> gives on the input
  when it does not: the same result and the same state.
\<close>

theorem resolve_delegates:
  "(\<exists>ip. tryParse e input = Some ip \<and> resolve e input s = hostByAddress e ip s)
   \<or> (tryParse e input = None \<and> resolve e input s = hostByName e input s)"
  by (cases "tryParse e input") (simp_all add: resolve_def)

theorem resolve_delegates_witness:
  "tryParse (fake_env False 1) ''192.0.2.1'' = Some [192, 0, 2, 1]
   \<and> resolve (fake_env False 1) ''192.0.2.1'' DNS_init =
       hostByAddress (fake_env False 1) [192, 0, 2, 1] DNS_init
   \<and> tryParse (fake_env False 1) ''example.invalid'' = None
   \<and> resolve (fake_env False 1) ''example.invalid'' DNS_init =
       hostByName (fake_env False 1) ''example.invalid'' DNS_init"
  using resolve_delegates [of "fake_env False 1" "''192.0.2.1''" DNS_init]
    resolve_delegates [of "fake_env False 1" "''example.invalid''" DNS_init]
  by (simp add: fake_env_def)

text \<open>
  C3. With pairwise different case labels, \<^verbatim>\<open>DNS::error\<close> throws for each label the
  exception of its case, and for a code that is no label an \<^verbatim>\<open>IOException\<close> whose message
  is the decimal text of the code; two such codes with the same exception are the same
  code.
\<close>

theorem error_mapping:
  assumes "distinct (case_labels cs)"
  shows "error cs (POCO_ESYSNOTREADY cs) arg = Inl (NetException ''Net subsystem not ready'')
       \<and> error cs (POCO_ENOTINIT cs) arg = Inl (NetException ''Net subsystem not initialized'')
       \<and> error cs (POCO_HOST_NOT_FOUND cs) arg = Inl (HostNotFoundException arg)
       \<and> error cs (POCO_TRY_AGAIN cs) arg =
           Inl (DNSException ''Temporary DNS error while resolving'' arg)
       \<and> error cs (POCO_NO_RECOVERY cs) arg =
           Inl (DNSException ''Non recoverable DNS error while resolving'' arg)
       \<and> error cs (POCO_NO_DATA cs) arg = Inl (NoAddressFoundException arg)
       \<and> (code \<notin> set (case_labels cs) \<longrightarrow>
            error cs code arg = Inl (IOException (NumberFormatter_format code)))
       \<and> (code \<notin> set (case_labels cs) \<and> code' \<notin> set (case_labels cs)
            \<and> error cs code arg = error cs code' arg \<longrightarrow> code = code')"
proof -
  from assms have ne:
    "POCO_ESYSNOTREADY cs \<noteq> POCO_ENOTINIT cs" "POCO_ESYSNOTREADY cs \<noteq> POCO_HOST_NOT_FOUND cs"
    "POCO_ESYSNOTREADY cs \<noteq> POCO_TRY_AGAIN cs" "POCO_ESYSNOTREADY cs \<noteq> POCO_NO_RECOVERY cs"
    "POCO_ESYSNOTREADY cs \<noteq> POCO_NO_DATA cs" "POCO_ENOTINIT cs \<noteq> POCO_HOST_NOT_FOUND cs"
    "POCO_ENOTINIT cs \<noteq> POCO_TRY_AGAIN cs" "POCO_ENOTINIT cs \<noteq> POCO_NO_RECOVERY cs"
    "POCO_ENOTINIT cs \<noteq> POCO_NO_DATA cs" "POCO_HOST_NOT_FOUND cs \<noteq> POCO_TRY_AGAIN cs"
    "POCO_HOST_NOT_FOUND cs \<noteq> POCO_NO_RECOVERY cs" "POCO_HOST_NOT_FOUND cs \<noteq> POCO_NO_DATA cs"
    "POCO_TRY_AGAIN cs \<noteq> POCO_NO_RECOVERY cs" "POCO_TRY_AGAIN cs \<noteq> POCO_NO_DATA cs"
    "POCO_NO_RECOVERY cs \<noteq> POCO_NO_DATA cs"
    by (simp_all add: case_labels_def)
  note ne' = ne ne [symmetric]
  have other: "error cs c arg = Inl (IOException (NumberFormatter_format c))"
    if "c \<notin> set (case_labels cs)" for c
    using that by (simp add: error_def case_labels_def)
  have "code = code'"
    if "code \<notin> set (case_labels cs)" "code' \<notin> set (case_labels cs)"
      "error cs code arg = error cs code' arg"
    using that other [of code] other [of code'] NumberFormatter_format_inj [of code code']
    by simp
  then show ?thesis
    using other [of code] by (simp add: error_def ne')
qed
theorem error_mapping_witness:
  "distinct (case_labels posix_codes)
   \<and> error posix_codes 1 ''example.invalid'' = Inl (HostNotFoundException ''example.invalid'')
   \<and> error posix_codes 2 ''example.invalid'' =
       Inl (DNSException ''Temporary DNS error while resolving'' ''example.invalid'')
   \<and> error posix_codes 4 ''example.invalid'' = Inl (NoAddressFoundException ''example.invalid'')
   \<and> 77 \<notin> set (case_labels posix_codes)
   \<and> error posix_codes 77 ''example.invalid'' = Inl (IOException ''77'')"
proof -
  have d: "distinct (case_labels posix_codes)"
    by (simp add: case_labels_def posix_codes_def)
  have f: "NumberFormatter_format 77 = ''77''"
    by code_simp
  from error_mapping [OF d, of "''example.invalid''" 77] d f show ?thesis
    by (simp add: case_labels_def posix_codes_def)
qed

text \<open>
  C4. When a name is not cached and its forward lookup succeeds, \<^verbatim>\<open>hostByName\<close> makes
  that one resolver call, stores the entry built from the result under the name and
  returns it; a second call right after returns the same entry, changes neither the
  cache nor the error code and makes no resolver call: it only takes and releases the
  lock, so after both calls there is exactly one resolver call more than before. A call
  for a cached name returns the cached entry, so it does not throw.
\<close>

theorem hostByName_twice:
  "(cache s n = None \<and> forward_lookup e (now s) n = Inr entry \<longrightarrow>
      hostByName e n s =
        (Inr entry,
         s\<lparr>cache := (cache s)(n \<mapsto> entry),
           trace := trace s @ [Lock, forward_event e n, Unlock]\<rparr>)
      \<and> cache (snd (hostByName e n s)) n = Some entry
      \<and> hostByName e n (snd (hostByName e n s)) =
        (Inr entry,
         (snd (hostByName e n s))
           \<lparr>trace := trace (snd (hostByName e n s)) @ [Lock, Unlock]\<rparr>)
      \<and> os_calls (trace (snd (hostByName e n (snd (hostByName e n s))))) =
        os_calls (trace s) @ [forward_event e n])
   \<and> (cache s n = Some entry \<longrightarrow>
      hostByName e n s = (Inr entry, s\<lparr>trace := trace s @ [Lock, Unlock]\<rparr>))"
proof -
  have first:
    "hostByName e n s =
        (Inr entry,
         s\<lparr>cache := (cache s)(n \<mapsto> entry),
           trace := trace s @ [Lock, forward_event e n, Unlock]\<rparr>)
      \<and> cache (snd (hostByName e n s)) n = Some entry
      \<and> hostByName e n (snd (hostByName e n s)) =
        (Inr entry,
         (snd (hostByName e n s))
           \<lparr>trace := trace (snd (hostByName e n s)) @ [Lock, Unlock]\<rparr>)
      \<and> os_calls (trace (snd (hostByName e n (snd (hostByName e n s))))) =
        os_calls (trace s) @ [forward_event e n]"
    if miss: "cache s n = None" and ok: "forward_lookup e (now s) n = Inr entry"
  proof -
    let ?s1 = "snd (hostByName e n s)"
    note one = hostByName_miss_ok [OF miss ok]
    then have stored: "cache ?s1 n = Some entry"
      by simp
    note two = hostByName_hit [OF stored, of e]
    have calls: "os_calls (trace (snd (hostByName e n ?s1))) =
        os_calls (trace s) @ [forward_event e n]"
      by (simp add: two) (simp add: one os_calls_def forward_event_def)
    from one stored two calls show ?thesis
      by simp
  qed
  then have miss: "cache s n = None \<and> forward_lookup e (now s) n = Inr entry \<longrightarrow>
      hostByName e n s =
        (Inr entry,
         s\<lparr>cache := (cache s)(n \<mapsto> entry),
           trace := trace s @ [Lock, forward_event e n, Unlock]\<rparr>)
      \<and> cache (snd (hostByName e n s)) n = Some entry
      \<and> hostByName e n (snd (hostByName e n s)) =
        (Inr entry,
         (snd (hostByName e n s))
           \<lparr>trace := trace (snd (hostByName e n s)) @ [Lock, Unlock]\<rparr>)
      \<and> os_calls (trace (snd (hostByName e n (snd (hostByName e n s))))) =
        os_calls (trace s) @ [forward_event e n]"
    by blast
  have hit: "cache s n = Some entry \<longrightarrow>
      hostByName e n s = (Inr entry, s\<lparr>trace := trace s @ [Lock, Unlock]\<rparr>)"
    by (simp add: hostByName_hit)
  from miss hit show ?thesis
    by (rule conjI)
qed

theorem hostByName_twice_witness:
  "cache DNS_init ''example.test'' = None
   \<and> forward_lookup (fake_env False 1) (now DNS_init) ''example.test'' =
       Inr \<lparr>name = ''example.test'', aliases = [''www.example.test''],
            addresses = [[192, 0, 2, 1], [192, 0, 2, 2]]\<rparr>
   \<and> hostByName (fake_env False 1) ''example.test'' DNS_init =
       (Inr \<lparr>name = ''example.test'', aliases = [''www.example.test''],
             addresses = [[192, 0, 2, 1], [192, 0, 2, 2]]\<rparr>,
        \<lparr>cache = [''example.test'' \<mapsto>
            \<lparr>name = ''example.test'', aliases = [''www.example.test''],
             addresses = [[192, 0, 2, 1], [192, 0, 2, 2]]\<rparr>],
         h_errno = 0, trace = [Lock, Gethostbyname ''example.test'', Unlock]\<rparr>)
   \<and> hostByName (fake_env False 1) ''example.test''
        \<lparr>cache = [''example.test'' \<mapsto>
            \<lparr>name = ''example.test'', aliases = [''www.example.test''],
             addresses = [[192, 0, 2, 1], [192, 0, 2, 2]]\<rparr>],
         h_errno = 0, trace = [Lock, Gethostbyname ''example.test'', Unlock]\<rparr> =
       (Inr \<lparr>name = ''example.test'', aliases = [''www.example.test''],
             addresses = [[192, 0, 2, 1], [192, 0, 2, 2]]\<rparr>,
        \<lparr>cache = [''example.test'' \<mapsto>
            \<lparr>name = ''example.test'', aliases = [''www.example.test''],
             addresses = [[192, 0, 2, 1], [192, 0, 2, 2]]\<rparr>],
         h_errno = 0,
         trace = [Lock, Gethostbyname ''example.test'', Unlock, Lock, Unlock]\<rparr>)
   \<and> os_calls (trace (snd (hostByName (fake_env False 1) ''example.test''
        (snd (hostByName (fake_env False 1) ''example.test'' DNS_init))))) =
       [Gethostbyname ''example.test'']"
proof -
  let ?e = "fake_env False 1"
  let ?entry = "\<lparr>name = ''example.test'', aliases = [''www.example.test''],
             addresses = [[192, 0, 2, 1], [192, 0, 2, 2 :: nat]]\<rparr>"
  let ?s1 = "\<lparr>cache = [''example.test'' \<mapsto> ?entry],
         h_errno = 0, trace = [Lock, Gethostbyname ''example.test'', Unlock]\<rparr>"
  have h: "cache DNS_init ''example.test'' = None
      \<and> forward_lookup ?e (now DNS_init) ''example.test'' = Inr ?entry"
    by (simp add: fake_defs forward_lookup_def)
  have c: "cache ?s1 ''example.test'' = Some ?entry"
    by simp
  note miss = hostByName_twice [of DNS_init "''example.test''" ?e ?entry,
      THEN conjunct1, rule_format, OF h]
  note hit = hostByName_twice [of ?s1 "''example.test''" ?e ?entry,
      THEN conjunct2, rule_format, OF c]
  have fe: "forward_event ?e ''example.test'' = Gethostbyname ''example.test''"
    by (simp add: forward_event_def fake_env_def)
  have s1: "DNS_init\<lparr>cache := (cache DNS_init)(''example.test'' \<mapsto> ?entry),
        trace := trace DNS_init @ [Lock, Gethostbyname ''example.test'', Unlock]\<rparr> = ?s1"
    by (simp add: DNS_init_def)
  have none: "os_calls (trace DNS_init) = []"
    by (simp add: DNS_init_def os_calls_def)
  from miss have first: "hostByName ?e ''example.test'' DNS_init = (Inr ?entry, ?s1)"
    unfolding fe s1 by (rule conjunct1)
  from miss [THEN conjunct2, THEN conjunct2, THEN conjunct2]
  have calls: "os_calls (trace (snd (hostByName ?e ''example.test''
        (snd (hostByName ?e ''example.test'' DNS_init))))) = [Gethostbyname ''example.test'']"
    by (simp only: fe none append_Nil)
  from h first hit calls show ?thesis
    by simp
qed

text \<open>
  C5. When the name is not cached and the forward lookup fails with a code,
  \<^verbatim>\<open>hostByName\<close> throws the exception that \<^verbatim>\<open>DNS::error\<close> makes from the code and the
  name, and the cache is as before. When the reverse lookup fails with a code,
  \<^verbatim>\<open>hostByAddress\<close> throws the exception that \<^verbatim>\<open>DNS::error\<close> makes from the code and
  the text of the address, and the cache is as before.
\<close>

theorem lookup_failure_raises:
  "(cache s n = None \<and> forward_lookup e (now s) n = Inl code \<longrightarrow>
      (\<exists>ex. error (error_codes e) code n = Inl ex \<and> fst (hostByName e n s) = Inl ex)
      \<and> cache (snd (hostByName e n s)) = cache s)
   \<and> (reverse_lookup e (now s) a = Inl code \<longrightarrow>
      (\<exists>ex. error (error_codes e) code (toString e a) = Inl ex
            \<and> fst (hostByAddress e a s) = Inl ex)
      \<and> cache (snd (hostByAddress e a s)) = cache s)"
proof -
  have ex: "\<exists>ex. error cs c arg = Inl ex \<and> Inl (projl (error cs c arg)) = (Inl ex :: exn + 'ip HostEntry)" for cs c arg
    using error_throws [of cs c arg] by auto
  have rev: "hostByAddress e a s =
     (Inl (projl (error (error_codes e) code (toString e a))),
      s\<lparr>h_errno := code, trace := trace s @ [Lock, reverse_event e a, Unlock]\<rparr>)"
    if "reverse_lookup e (now s) a = Inl code"
  proof (cases "win32_ipv6 e")
    case True
    with that show ?thesis
      by (simp add: reverse_lookup_def hostByAddress_win_fail reverse_event_def)
  next
    case False
    with that have "gethostbyaddr e (now s) a = Inl code"
      by (cases "gethostbyaddr e (now s) a") (simp_all add: reverse_lookup_def)
    with False show ?thesis
      by (simp add: hostByAddress_posix_fail reverse_event_def)
  qed
  show ?thesis
    using ex [of "error_codes e" code] by (auto simp: hostByName_miss_fail rev)
qed

theorem lookup_failure_raises_witness:
  "cache DNS_init ''example.invalid'' = None
   \<and> forward_lookup (fake_env False 1) (now DNS_init) ''example.invalid'' = Inl 1
   \<and> fst (hostByName (fake_env False 1) ''example.invalid'' DNS_init) =
       Inl (HostNotFoundException ''example.invalid'')
   \<and> cache (snd (hostByName (fake_env False 1) ''example.invalid'' DNS_init)) = Map.empty
   \<and> reverse_lookup (fake_env True 11002) (now DNS_init) [192, 0, 2, 9] = Inl 11002
   \<and> fst (hostByAddress (fake_env True 11002) [192, 0, 2, 9] DNS_init) =
       Inl (DNSException ''Temporary DNS error while resolving'' ''192.0.2.9'')
   \<and> cache (snd (hostByAddress (fake_env True 11002) [192, 0, 2, 9] DNS_init)) = Map.empty"
proof -
  have f: "cache DNS_init ''example.invalid'' = None
      \<and> forward_lookup (fake_env False 1) (now DNS_init) ''example.invalid'' = Inl 1"
    by (simp add: fake_defs forward_lookup_def reverse_lookup_def)
  have r: "reverse_lookup (fake_env True 11002) (now DNS_init) [192, 0, 2, 9] = Inl 11002"
    by (simp add: fake_defs forward_lookup_def reverse_lookup_def)
  have t: "toString (fake_env True 11002) [192, 0, 2, 9] = ''192.0.2.9''"
    unfolding fake_env_def by code_simp
  have e1: "error (error_codes (fake_env False 1)) 1 ''example.invalid'' =
      Inl (HostNotFoundException ''example.invalid'')"
    by (simp add: error_def fake_defs)
  have e2: "error (error_codes (fake_env True 11002)) 11002 ''192.0.2.9'' =
      Inl (DNSException ''Temporary DNS error while resolving'' ''192.0.2.9'')"
    by (simp add: error_def fake_defs)
  note n = lookup_failure_raises [of DNS_init "''example.invalid''" "fake_env False 1" 1,
      THEN conjunct1, rule_format, OF f]
  note a = lookup_failure_raises [of DNS_init _ "fake_env True 11002" 11002 "[192, 0, 2, 9]",
      THEN conjunct2, rule_format, OF r]
  from n e1 have n': "fst (hostByName (fake_env False 1) ''example.invalid'' DNS_init) =
       Inl (HostNotFoundException ''example.invalid'')"
    by auto
  from a e2 t have a': "fst (hostByAddress (fake_env True 11002) [192, 0, 2, 9] DNS_init) =
       Inl (DNSException ''Temporary DNS error while resolving'' ''192.0.2.9'')"
    by auto
  from n a have c: "cache (snd (hostByName (fake_env False 1) ''example.invalid'' DNS_init)) = Map.empty"
    "cache (snd (hostByAddress (fake_env True 11002) [192, 0, 2, 9] DNS_init)) = Map.empty"
    by (simp_all add: DNS_init_def)
  from f r n' a' c show ?thesis by simp
qed

text \<open>
  C6. \<^verbatim>\<open>resolveOne\<close> returns the first address of the entry that \<^verbatim>\<open>resolve\<close> returns
  when the entry has an address, throws \<^verbatim>\<open>NoAddressFoundException\<close> with the input when
  it has none, and passes on the exception when \<^verbatim>\<open>resolve\<close> throws; the state is the
  one \<^verbatim>\<open>resolve\<close> leaves.
\<close>

theorem resolveOne_first_address:
  "(resolve e input s = (Inr entry, s') \<and> addresses entry \<noteq> [] \<longrightarrow>
      resolveOne e input s = (Inr (addresses entry ! 0), s'))
   \<and> (resolve e input s = (Inr entry, s') \<and> addresses entry = [] \<longrightarrow>
      resolveOne e input s = (Inl (NoAddressFoundException input), s'))
   \<and> (resolve e input s = (Inl ex, s') \<longrightarrow> resolveOne e input s = (Inl ex, s'))"
  by (auto simp: resolveOne_def split: list.split)

theorem resolveOne_first_address_witness:
  "resolve (fake_env False 1) ''example.test'' DNS_init =
     (Inr \<lparr>name = ''example.test'', aliases = [''www.example.test''],
           addresses = [[192, 0, 2, 1], [192, 0, 2, 2]]\<rparr>,
      \<lparr>cache = [''example.test'' \<mapsto>
          \<lparr>name = ''example.test'', aliases = [''www.example.test''],
           addresses = [[192, 0, 2, 1], [192, 0, 2, 2]]\<rparr>],
       h_errno = 0, trace = [Lock, Gethostbyname ''example.test'', Unlock]\<rparr>)
   \<and> fst (resolveOne (fake_env False 1) ''example.test'' DNS_init) = Inr [192, 0, 2, 1]
   \<and> resolve (empty_env False 1) ''empty.test'' DNS_init =
     (Inr \<lparr>name = ''empty.test'', aliases = [], addresses = []\<rparr>,
      \<lparr>cache = [''empty.test'' \<mapsto> \<lparr>name = ''empty.test'', aliases = [], addresses = []\<rparr>],
       h_errno = 0, trace = [Lock, Gethostbyname ''empty.test'', Unlock]\<rparr>)
   \<and> fst (resolveOne (empty_env False 1) ''empty.test'' DNS_init) =
       Inl (NoAddressFoundException ''empty.test'')
   \<and> resolve (fake_env False 1) ''example.invalid'' DNS_init =
     (Inl (HostNotFoundException ''example.invalid''),
      \<lparr>cache = Map.empty, h_errno = 1, trace = [Lock, Gethostbyname ''example.invalid'', Unlock]\<rparr>)
   \<and> fst (resolveOne (fake_env False 1) ''example.invalid'' DNS_init) =
       Inl (HostNotFoundException ''example.invalid'')"
proof -
  let ?entry = "\<lparr>name = ''example.test'', aliases = [''www.example.test''],
           addresses = [[192, 0, 2, 1], [192, 0, 2, 2 :: nat]]\<rparr>"
  let ?s1 = "\<lparr>cache = [''example.test'' \<mapsto> ?entry],
       h_errno = 0, trace = [Lock, Gethostbyname ''example.test'', Unlock]\<rparr>"
  let ?none = "\<lparr>name = ''empty.test'', aliases = [], addresses = [] :: nat list list\<rparr>"
  let ?s2 = "\<lparr>cache = [''empty.test'' \<mapsto> ?none],
       h_errno = 0, trace = [Lock, Gethostbyname ''empty.test'', Unlock :: nat list event]\<rparr>"
  let ?s3 = "\<lparr>cache = Map.empty, h_errno = 1,
       trace = [Lock, Gethostbyname ''example.invalid'', Unlock :: nat list event]\<rparr>"
  have r1: "resolve (fake_env False 1) ''example.test'' DNS_init = (Inr ?entry, ?s1)"
    by (simp add: run_defs fake_defs resolve_def empty_env_def empty_forward_def)
  have r2: "resolve (empty_env False 1) ''empty.test'' DNS_init = (Inr ?none, ?s2)"
    by (simp add: run_defs fake_defs resolve_def empty_env_def empty_forward_def)
  have r3: "resolve (fake_env False 1) ''example.invalid'' DNS_init =
      (Inl (HostNotFoundException ''example.invalid''), ?s3)"
    by (simp add: run_defs fake_defs resolve_def empty_env_def empty_forward_def error_def)
  have h1: "resolve (fake_env False 1) ''example.test'' DNS_init = (Inr ?entry, ?s1)
      \<and> addresses ?entry \<noteq> []"
    using r1 by simp
  have h2: "resolve (empty_env False 1) ''empty.test'' DNS_init = (Inr ?none, ?s2)
      \<and> addresses ?none = []"
    using r2 by simp
  note a = resolveOne_first_address [THEN conjunct1, rule_format, OF h1]
  note b = resolveOne_first_address [THEN conjunct2, THEN conjunct1, rule_format, OF h2]
  note c = resolveOne_first_address [THEN conjunct2, THEN conjunct2, rule_format, OF r3]
  from a b c r1 r2 r3 show ?thesis by simp
qed

text \<open>
  C7. After \<^verbatim>\<open>flushCache\<close> the cache is empty, and a call of \<^verbatim>\<open>hostByName\<close> then makes
  exactly one resolver call, the forward lookup of the name, whatever was cached
  before.
\<close>

theorem flushCache_then_hostByName:
  "cache (snd (flushCache s)) = Map.empty
   \<and> os_calls (trace (snd (hostByName e n (snd (flushCache s)))))
       = os_calls (trace s) @ [forward_event e n]"
proof -
  have c: "cache (snd (flushCache s)) n = None" and t: "trace (snd (flushCache s)) = trace s @ [Lock, Unlock]"
    by (simp_all add: flushCache_def snd_ScopedLock)
  have e: "cache (snd (flushCache s)) = Map.empty"
    by (simp add: flushCache_def snd_ScopedLock)
  have "os_calls (trace (snd (hostByName e n (snd (flushCache s)))))
       = os_calls (trace s) @ [forward_event e n]"
  proof (cases "forward_lookup e (now (snd (flushCache s))) n")
    case (Inl code)
    from hostByName_miss_fail [OF c Inl] t show ?thesis
      by (simp add: os_calls_def forward_event_def)
  next
    case (Inr entry)
    from hostByName_miss_ok [OF c Inr] t show ?thesis
      by (simp add: os_calls_def forward_event_def)
  qed
  with e show ?thesis by simp
qed

theorem flushCache_then_hostByName_witness:
  "cache \<lparr>cache = [''example.test'' \<mapsto> \<lparr>name = ''example.test'', aliases = [],
                     addresses = [[192, 0, 2, 1 :: nat]]\<rparr>],
          h_errno = 0, trace = [Lock, Gethostbyname ''example.test'', Unlock]\<rparr> ''example.test''
     = Some \<lparr>name = ''example.test'', aliases = [], addresses = [[192, 0, 2, 1]]\<rparr>
   \<and> os_calls (trace (snd (hostByName (fake_env False 1) ''example.test''
        (snd (flushCache
          \<lparr>cache = [''example.test'' \<mapsto> \<lparr>name = ''example.test'', aliases = [],
                     addresses = [[192, 0, 2, 1]]\<rparr>],
           h_errno = 0, trace = [Lock, Gethostbyname ''example.test'', Unlock]\<rparr>)))))
     = [Gethostbyname ''example.test'', Gethostbyname ''example.test'']"
  using flushCache_then_hostByName
    [of "\<lparr>cache = [''example.test'' \<mapsto> \<lparr>name = ''example.test'', aliases = [],
                     addresses = [[192, 0, 2, 1 :: nat]]\<rparr>],
          h_errno = 0, trace = [Lock, Gethostbyname ''example.test'', Unlock]\<rparr>"
        "fake_env False 1" "''example.test''"]
  by (simp add: os_calls_def forward_event_def fake_env_def)

text \<open>
  C8, as the code has it. \<^verbatim>\<open>hostByName\<close>, \<^verbatim>\<open>hostByAddress\<close> and \<^verbatim>\<open>resolve\<close> do not look
  at the address list. If every cached entry has an address and every successful
  resolver call yields an entry with an address, then the entry returned has an
  address and so has every entry cached afterwards.
\<close>

theorem resolution_addresses_nonempty:
  assumes cached: "\<forall>k entry. cache s k = Some entry \<longrightarrow> addresses entry \<noteq> []"
    and byname: "\<forall>t n he. gethostbyname e t n = Inr he \<longrightarrow> addresses (HostEntry_he e he) \<noteq> []"
    and byaddr: "\<forall>t a he. gethostbyaddr e t a = Inr he \<longrightarrow> addresses (HostEntry_he e he) \<noteq> []"
    and addrinfo: "\<forall>t n c pAI. getaddrinfo e t n c = Inr pAI \<longrightarrow> addresses (HostEntry_ai e pAI) \<noteq> []"
    and ok: "hostByName e n s = (Inr entry, s') \<or> hostByAddress e a s = (Inr entry, s')
             \<or> resolve e input s = (Inr entry, s')"
  shows "addresses entry \<noteq> [] \<and> (\<forall>k entry'. cache s' k = Some entry' \<longrightarrow> addresses entry' \<noteq> [])"
proof -
  have fwd: "\<forall>t entry. forward_lookup e t m = Inr entry \<longrightarrow> addresses entry \<noteq> []" for m
    using byname addrinfo by (auto simp: forward_lookup_def map_sum_def split: sum.splits if_splits)
  have byaddr': "\<forall>t he. gethostbyaddr e t b = Inr he \<longrightarrow> addresses (HostEntry_he e he) \<noteq> []" for b
    using byaddr by blast
  from ok consider
      (name) "hostByName e n s = (Inr entry, s')"
    | (addr) "hostByAddress e a s = (Inr entry, s')"
    | (res) "resolve e input s = (Inr entry, s')" by blast
  then show ?thesis
  proof cases
    case name
    then show ?thesis by (rule hostByName_nonempty [OF cached fwd])
  next
    case addr
    then show ?thesis by (rule hostByAddress_nonempty [OF cached byaddr' addrinfo])
  next
    case res
    show ?thesis
    proof (cases "tryParse e input")
      case None
      with res have "hostByName e input s = (Inr entry, s')" by (simp add: resolve_def)
      then show ?thesis by (rule hostByName_nonempty [OF cached fwd])
    next
      case (Some ip)
      with res have "hostByAddress e ip s = (Inr entry, s')" by (simp add: resolve_def)
      then show ?thesis by (rule hostByAddress_nonempty [OF cached byaddr' addrinfo])
    qed
  qed
qed

theorem resolution_addresses_nonempty_witness:
  "hostByName (fake_env False 1) ''example.test'' DNS_init =
     (Inr \<lparr>name = ''example.test'', aliases = [''www.example.test''],
           addresses = [[192, 0, 2, 1], [192, 0, 2, 2]]\<rparr>,
      \<lparr>cache = [''example.test'' \<mapsto>
          \<lparr>name = ''example.test'', aliases = [''www.example.test''],
           addresses = [[192, 0, 2, 1], [192, 0, 2, 2]]\<rparr>],
       h_errno = 0, trace = [Lock, Gethostbyname ''example.test'', Unlock]\<rparr>)
   \<and> addresses \<lparr>name = ''example.test'', aliases = [''www.example.test''],
           addresses = [[192, 0, 2, 1], [192, 0, 2, 2 :: nat]]\<rparr> \<noteq> []"
proof -
  let ?e = "fake_env False 1"
  let ?entry = "\<lparr>name = ''example.test'', aliases = [''www.example.test''],
           addresses = [[192, 0, 2, 1], [192, 0, 2, 2 :: nat]]\<rparr>"
  let ?s1 = "\<lparr>cache = [''example.test'' \<mapsto> ?entry],
       h_errno = 0, trace = [Lock, Gethostbyname ''example.test'', Unlock]\<rparr>"
  have c: "\<forall>k entry. cache DNS_init k = Some entry \<longrightarrow> addresses entry \<noteq> []"
    by (simp add: DNS_init_def)
  have n: "\<forall>t n he. gethostbyname ?e t n = Inr he \<longrightarrow> addresses (HostEntry_he ?e he) \<noteq> []"
    by (auto simp: fake_defs split: if_splits)
  have a: "\<forall>t a he. gethostbyaddr ?e t a = Inr he \<longrightarrow> addresses (HostEntry_he ?e he) \<noteq> []"
    by (auto simp: fake_defs split: if_splits)
  have i: "\<forall>t n c pAI. getaddrinfo ?e t n c = Inr pAI \<longrightarrow> addresses (HostEntry_ai ?e pAI) \<noteq> []"
    by (auto simp: fake_defs split: if_splits)
  have r: "hostByName ?e ''example.test'' DNS_init = (Inr ?entry, ?s1)"
    by (simp add: run_defs fake_defs)
  then have ok: "hostByName ?e ''example.test'' DNS_init = (Inr ?entry, ?s1)
      \<or> hostByAddress ?e [] DNS_init = (Inr ?entry, ?s1)
      \<or> resolve ?e [] DNS_init = (Inr ?entry, ?s1)"
    by simp
  from resolution_addresses_nonempty [OF c n a i ok] r show ?thesis
    by simp
qed

text \<open>
  C8 as it is stated fails: a forward lookup that succeeds with no address gives an
  entry without addresses, which is cached and returned by \<^verbatim>\<open>hostByName\<close> and
  \<^verbatim>\<open>resolve\<close>; \<^verbatim>\<open>resolveOne\<close> is where the empty list is found.
\<close>

theorem empty_addresses_counterexample:
  "hostByName (empty_env False 1) ''empty.test'' DNS_init =
     (Inr \<lparr>name = ''empty.test'', aliases = [], addresses = []\<rparr>,
      \<lparr>cache = [''empty.test'' \<mapsto> \<lparr>name = ''empty.test'', aliases = [], addresses = []\<rparr>],
       h_errno = 0, trace = [Lock, Gethostbyname ''empty.test'', Unlock]\<rparr>)
   \<and> fst (resolve (empty_env False 1) ''empty.test'' DNS_init) =
       Inr \<lparr>name = ''empty.test'', aliases = [], addresses = []\<rparr>
   \<and> fst (resolveOne (empty_env False 1) ''empty.test'' DNS_init) =
       Inl (NoAddressFoundException ''empty.test'')"
  by (simp add: hostByName_def resolve_def resolveOne_def ScopedLock_def cache_insert_def log_def
      fake_defs empty_env_def empty_forward_def)

text \<open>
  C9, as the code has it. A call of \<^verbatim>\<open>hostByName\<close> or \<^verbatim>\<open>hostByAddress\<close> locks the mutex
  first and unlocks it last, and every resolver call it makes lies between the two:
  none is made while the mutex is not locked. The events are the lock, the unlock and
  the resolver calls; the reads and inserts of the cache are not among them.
\<close>

theorem lock_held_across_os_calls:
  "(\<exists>calls. added s (snd (hostByName e n s)) = Lock # calls @ [Unlock]
       \<and> list_all is_os_call calls
       \<and> locked_os_calls False (added s (snd (hostByName e n s))) = calls)
   \<and> unlocked_os_calls False (added s (snd (hostByName e n s))) = []
   \<and> (\<exists>calls. added s (snd (hostByAddress e a s)) = Lock # calls @ [Unlock]
       \<and> list_all is_os_call calls
       \<and> locked_os_calls False (added s (snd (hostByAddress e a s))) = calls)
   \<and> unlocked_os_calls False (added s (snd (hostByAddress e a s))) = []"
proof -
  have n: "(\<exists>calls. added s (snd (hostByName e n s)) = Lock # calls @ [Unlock]
       \<and> list_all is_os_call calls
       \<and> locked_os_calls False (added s (snd (hostByName e n s))) = calls)
   \<and> unlocked_os_calls False (added s (snd (hostByName e n s))) = []"
    using hostByName_added [of s e n]
    by (auto simp: forward_event_def)
  have a: "(\<exists>calls. added s (snd (hostByAddress e a s)) = Lock # calls @ [Unlock]
       \<and> list_all is_os_call calls
       \<and> locked_os_calls False (added s (snd (hostByAddress e a s))) = calls)
   \<and> unlocked_os_calls False (added s (snd (hostByAddress e a s))) = []"
    using hostByAddress_added [of s e a]
    by (auto simp: reverse_event_def)
  from n a show ?thesis by simp
qed

theorem lock_held_across_os_calls_witness:
  "added DNS_init (snd (hostByName (fake_env False 1) ''example.test'' DNS_init)) =
     [Lock, Gethostbyname ''example.test'', Unlock]
   \<and> unlocked_os_calls False
       (added DNS_init (snd (hostByName (fake_env False 1) ''example.test'' DNS_init))) = []
   \<and> unlocked_os_calls False
       (added DNS_init (snd (hostByAddress (fake_env True 11001) [192, 0, 2, 1] DNS_init))) = []"
proof -
  have t: "added DNS_init (snd (hostByName (fake_env False 1) ''example.test'' DNS_init)) =
     [Lock, Gethostbyname ''example.test'', Unlock]"
    by (simp add: added_def run_defs fake_defs)
  from lock_held_across_os_calls
    [of DNS_init "fake_env False 1" "''example.test''" "[192, 0, 2, 1]"]
    lock_held_across_os_calls
    [of DNS_init "fake_env True 11001" "''example.test''" "[192, 0, 2, 1]"] t
  show ?thesis by simp
qed

text \<open>
  C9 as it is stated fails: the resolver calls of a lookup are made while the mutex
  is locked.
\<close>

theorem lock_held_counterexample:
  "trace (snd (hostByName (fake_env False 1) ''example.test'' DNS_init)) =
     [Lock, Gethostbyname ''example.test'', Unlock]
   \<and> locked_os_calls False (trace (snd (hostByName (fake_env False 1) ''example.test'' DNS_init))) =
     [Gethostbyname ''example.test'']
   \<and> trace (snd (hostByAddress (fake_env True 11001) [192, 0, 2, 1] DNS_init)) =
     [Lock, Getnameinfo [192, 0, 2, 1], Getaddrinfo ''example.test'', Unlock]
   \<and> locked_os_calls False (trace (snd (hostByAddress (fake_env True 11001) [192, 0, 2, 1] DNS_init))) =
     [Getnameinfo [192, 0, 2, 1], Getaddrinfo ''example.test'']"
  by (simp add: hostByName_def hostByAddress_def ScopedLock_def cache_insert_def log_def fake_defs)

text \<open>
  C10. \<^verbatim>\<open>DNS::error\<close> throws for every code, so the two statements that end
  \<^verbatim>\<open>hostByName\<close> and \<^verbatim>\<open>hostByAddress\<close> throw the exception of \<^verbatim>\<open>DNS::error\<close>, and neither
  function ever throws the \<^verbatim>\<open>NetException()\<close> of the last statement.
\<close>

theorem error_never_returns:
  "(\<exists>ex. error cs code arg = Inl ex)
   \<and> (\<exists>ex. error (error_codes e) (lastError s) arg = Inl ex
          \<and> error_or_throw e arg s = (Inl ex, s))
   \<and> fst (hostByName e n s) \<noteq> Inl (NetException [])
   \<and> fst (hostByAddress e a s) \<noteq> Inl (NetException [])"
proof -
  have 1: "\<exists>ex. error cs code arg = Inl ex"
    by (rule error_throws)
  have 2: "\<exists>ex. error (error_codes e) (lastError s) arg = Inl ex
          \<and> error_or_throw e arg s = (Inl ex, s)"
    using error_throws [of "error_codes e" "lastError s" arg]
    by (auto simp: error_or_throw_def)
  have 3: "fst (hostByName e n s) \<noteq> Inl (NetException [])"
    by (simp add: hostByName_def fst_ScopedLock error_or_throw_not_default cache_insert_fst
        split: option.split sum.split)
  have 4: "fst (hostByAddress e a s) \<noteq> Inl (NetException [])"
    by (simp add: hostByAddress_def fst_ScopedLock Let_def error_or_throw_not_default
        cache_insert_fst split: option.split sum.split)
  from 1 2 3 4 show ?thesis by simp
qed

theorem error_never_returns_witness:
  "(\<exists>ex. error posix_codes (- 4) ''example.invalid'' = Inl ex)
   \<and> fst (hostByName (fake_env False (- 4)) ''example.invalid'' DNS_init) \<noteq> Inl (NetException [])
   \<and> fst (hostByAddress (fake_env False (- 4)) [192, 0, 2, 9] DNS_init) \<noteq> Inl (NetException [])"
  using error_never_returns
    [of posix_codes "- 4" "''example.invalid''" "fake_env False (- 4)" DNS_init
        "''example.invalid''" "[192, 0, 2, 9]"]
  by simp

end
